theory Spec2Isabelle
  imports Main
begin

section \<open>The skyscrapers board checker (skyscrapers.py)\<close>

text \<open>
  A board is the list of text rows that \<^verbatim>\<open>read_input\<close> returns. Every function of the
  module is translated below; an exception raised by the Python code is the \<open>Inl\<close> branch
  of the result. Python's \<^verbatim>\<open>str\<close> holds Unicode code points; here a character is a
  \<^typ>\<open>char\<close>, which covers the code points below 256, and among those the decimal digits
  that \<^verbatim>\<open>int\<close> accepts are exactly \<open>0\<close> to \<open>9\<close>.
\<close>

datatype error = ValueError | IndexError | TypeError

type_synonym board = "string list"

subsection \<open>Python primitives used by the module\<close>

text \<open>\<^verbatim>\<open>int(c)\<close> for a one-character string \<open>c\<close>: the digit's value, or ValueError.\<close>

definition py_int :: "char \<Rightarrow> error + int" where
  "py_int c =
     (let n = (of_char c :: nat)
      in if 48 \<le> n \<and> n \<le> 57 then Inr (int n - 48) else Inl ValueError)"

text \<open>\<^verbatim>\<open>list(map(int, s))\<close>: the first character that is no digit raises.\<close>

fun map_int :: "string \<Rightarrow> error + int list" where
  "map_int [] = Inr []"
| "map_int (c # cs) =
     (case py_int c of
        Inl e \<Rightarrow> Inl e
      | Inr n \<Rightarrow> (case map_int cs of Inl e \<Rightarrow> Inl e | Inr ns \<Rightarrow> Inr (n # ns)))"

text \<open>\<^verbatim>\<open>s.strip("*")\<close>: leading and trailing stars removed.\<close>

definition strip_star :: "string \<Rightarrow> string" where
  "strip_star s =
     rev (dropWhile (\<lambda>c. c = CHR ''*'') (rev (dropWhile (\<lambda>c. c = CHR ''*'') s)))"

text \<open>\<^verbatim>\<open>xs[:k]\<close>: a negative \<open>k\<close> counts from the end; the slice never raises.\<close>

definition slice_to :: "'a list \<Rightarrow> int \<Rightarrow> 'a list" where
  "slice_to xs k = (if k < 0 then take (length xs - nat (- k)) xs else take (nat k) xs)"

text \<open>\<^verbatim>\<open>xs[1:-1]\<close>: from index 1 up to, not including, the last index; never raises.\<close>

definition inner_slice :: "'a list \<Rightarrow> 'a list" where
  "inner_slice xs = drop 1 (take (length xs - 1) xs)"

text \<open>\<^verbatim>\<open>max(xs)\<close> on a non-empty list, scanning from the left.\<close>

fun py_max :: "int list \<Rightarrow> error + int" where
  "py_max [] = Inl ValueError"
| "py_max (x # xs) = Inr (fold max xs x)"

subsection \<open>left\_to\_right\_check\<close>

definition left_to_right_check :: "string \<Rightarrow> int \<Rightarrow> error + bool" where
  "left_to_right_check input_line pivot =
     (case map_int (strip_star input_line) of
        Inl e \<Rightarrow> Inl e
      | Inr num0 \<Rightarrow>
          (case num0 of
             [] \<Rightarrow> Inl IndexError
           | _ # num1 \<Rightarrow>
               (let num = slice_to num1 pivot
                in if num = [] then Inl IndexError
                   else (case py_max num of
                           Inl e \<Rightarrow> Inl e
                         | Inr m \<Rightarrow> Inr (last num = m)))))"

subsection \<open>check\_not\_finished\_board\<close>

fun check_not_finished_board :: "board \<Rightarrow> bool" where
  "check_not_finished_board [] = True"
| "check_not_finished_board (row # rest) =
     (if CHR ''?'' \<in> set row then False else check_not_finished_board rest)"

subsection \<open>check\_uniqueness\_in\_rows\<close>

text \<open>
  The loop over the interior rows. \<^verbatim>\<open>row.pop(0)\<close> raises IndexError on an empty row and
  \<^verbatim>\<open>row.pop(-1)\<close> on a row of one character; the first row with a repeated character
  returns False at once.
\<close>

fun uniqueness_loop :: "board \<Rightarrow> error + bool" where
  "uniqueness_loop [] = Inr True"
| "uniqueness_loop (row # rest) =
     (case row of
        [] \<Rightarrow> Inl IndexError
      | _ # row1 \<Rightarrow>
          (if row1 = [] then Inl IndexError
           else (let row2 = filter (\<lambda>x. x \<noteq> CHR ''*'') (butlast row1)
                 in if length row2 \<noteq> card (set row2) then Inr False
                    else uniqueness_loop rest)))"

definition check_uniqueness_in_rows :: "board \<Rightarrow> error + bool" where
  "check_uniqueness_in_rows board = uniqueness_loop (inner_slice board)"

subsection \<open>check\_rows\<close>

text \<open>
  The loop over \<^verbatim>\<open>range(1, len(row_1))\<close> reads \<^verbatim>\<open>row_1[i]\<close> in order, so it is a
  recursion over the tail of the row, carrying \<^verbatim>\<open>first_num\<close> and \<^verbatim>\<open>temp\<close>.
\<close>

fun check_rows_loop :: "int list \<Rightarrow> int \<Rightarrow> int list \<Rightarrow> int list" where
  "check_rows_loop [] first_num temp = temp"
| "check_rows_loop (x # xs) first_num temp =
     check_rows_loop xs (max x first_num) (if x > first_num then temp @ [x] else temp)"

definition check_rows :: "int list \<Rightarrow> int \<Rightarrow> error + bool" where
  "check_rows row_1 num =
     (case row_1 of
        [] \<Rightarrow> Inl IndexError
      | first_num # rest \<Rightarrow>
          Inr (int (length (check_rows_loop rest first_num [first_num])) \<ge> num))"

subsection \<open>check\_horizontal\_visibility\<close>

text \<open>One hinted edge of a row: \<^verbatim>\<open>results.append(check_rows(row_1, int(hint)))\<close>.\<close>

definition append_check :: "int list \<Rightarrow> char \<Rightarrow> bool list \<Rightarrow> error + bool list" where
  "append_check row_1 hint results =
     (case py_int hint of
        Inl e \<Rightarrow> Inl e
      | Inr num \<Rightarrow>
          (case check_rows row_1 num of
             Inl e \<Rightarrow> Inl e
           | Inr b \<Rightarrow> Inr (results @ [b])))"

text \<open>The body of the loop for one row; \<^verbatim>\<open>row[0]\<close> raises IndexError on an empty row.\<close>

definition visibility_row :: "string \<Rightarrow> bool list \<Rightarrow> error + bool list" where
  "visibility_row row results =
     (case map_int (filter (\<lambda>x. x \<noteq> CHR ''*'') (inner_slice row)) of
        Inl e \<Rightarrow> Inl e
      | Inr row_1 \<Rightarrow>
          (if row = [] then Inl IndexError
           else (case (if hd row \<noteq> CHR ''*'' then append_check row_1 (hd row) results
                       else Inr results) of
                   Inl e \<Rightarrow> Inl e
                 | Inr results1 \<Rightarrow>
                     (if last row \<noteq> CHR ''*''
                      then append_check (rev row_1) (last row) results1
                      else Inr results1))))"

fun visibility_loop :: "board \<Rightarrow> bool list \<Rightarrow> error + bool list" where
  "visibility_loop [] results = Inr results"
| "visibility_loop (row # rest) results =
     (case visibility_row row results of
        Inl e \<Rightarrow> Inl e
      | Inr results1 \<Rightarrow> visibility_loop rest results1)"

definition check_horizontal_visibility :: "board \<Rightarrow> error + bool" where
  "check_horizontal_visibility board =
     (case visibility_loop (inner_slice board) [] of
        Inl e \<Rightarrow> Inl e
      | Inr results \<Rightarrow> Inr (False \<notin> set results))"

subsection \<open>check\_columns\<close>

text \<open>
  A cell of a row of \<^verbatim>\<open>reversed_board\<close> under construction: the \<open>0\<close> the comprehension
  put there, or the one-character string the inner loop stored.
\<close>

datatype cell = Zero | Str char

text \<open>
  The inner loop \<^verbatim>\<open>reversed_board[i][j] = board[j][i]\<close> for \<open>j\<close> in
  \<^verbatim>\<open>range(len(board))\<close>; \<^verbatim>\<open>board[j][i]\<close> raises IndexError when row \<open>j\<close> has no
  position \<open>i\<close>.
\<close>

fun inner_loop :: "board \<Rightarrow> nat \<Rightarrow> nat list \<Rightarrow> cell list \<Rightarrow> error + cell list" where
  "inner_loop board i [] rrow = Inr rrow"
| "inner_loop board i (j # js) rrow =
     (if i < length (board ! j)
      then inner_loop board i js (rrow[j := Str (board ! j ! i)])
      else Inl IndexError)"

text \<open>\<^verbatim>\<open>"".join(cells)\<close>: an element that is not a string raises TypeError.\<close>

fun join :: "cell list \<Rightarrow> error + string" where
  "join [] = Inr []"
| "join (Zero # cs) = Inl TypeError"
| "join (Str c # cs) = (case join cs of Inl e \<Rightarrow> Inl e | Inr s \<Rightarrow> Inr (c # s))"

text \<open>
  The outer loop over \<open>i\<close>. Row \<open>i\<close> of \<^verbatim>\<open>reversed_board\<close> is filled and replaced by its
  joined string before row \<open>i + 1\<close> is touched, so the rows already joined are collected
  in \<open>joined\<close>, in index order, and the rows not yet reached are still all \<open>0\<close>.
\<close>

fun outer_loop :: "board \<Rightarrow> nat list \<Rightarrow> board \<Rightarrow> error + board" where
  "outer_loop board [] joined = Inr joined"
| "outer_loop board (i # is) joined =
     (case inner_loop board i [0..<length board] (replicate (length board) Zero) of
        Inl e \<Rightarrow> Inl e
      | Inr rrow \<Rightarrow>
          (case join rrow of
             Inl e \<Rightarrow> Inl e
           | Inr s \<Rightarrow> outer_loop board is (joined @ [s])))"

definition reversed_board :: "board \<Rightarrow> error + board" where
  "reversed_board board = outer_loop board [0..<length board] []"

definition check_columns :: "board \<Rightarrow> error + bool" where
  "check_columns board =
     (case reversed_board board of
        Inl e \<Rightarrow> Inl e
      | Inr rb \<Rightarrow>
          (case check_uniqueness_in_rows rb of
             Inl e \<Rightarrow> Inl e
           | Inr uniqueness \<Rightarrow>
               (case check_horizontal_visibility rb of
                  Inl e \<Rightarrow> Inl e
                | Inr visibility \<Rightarrow> Inr (uniqueness \<and> visibility))))"

subsection \<open>check\_skyscrapers\<close>

text \<open>
  The function reads the board from a file and then runs the four checks, in this order,
  before combining them; the board read is the argument here.
\<close>

definition check_skyscrapers :: "board \<Rightarrow> error + bool" where
  "check_skyscrapers board =
     (case check_columns board of
        Inl e \<Rightarrow> Inl e
      | Inr columns \<Rightarrow>
          (case check_horizontal_visibility board of
             Inl e \<Rightarrow> Inl e
           | Inr h_visibility \<Rightarrow>
               (let not_finished = check_not_finished_board board
                in (case check_uniqueness_in_rows board of
                      Inl e \<Rightarrow> Inl e
                    | Inr uniqueness \<Rightarrow>
                        Inr (columns \<and> h_visibility \<and> not_finished \<and> uniqueness)))))"

subsection \<open>Notions of the specification\<close>

text \<open>
  The number of visible buildings as the specification words it: a building is visible
  iff it is strictly taller than every building before it in the viewing order. The
  first building has none before it and always counts.
\<close>

definition visible_count :: "int list \<Rightarrow> nat" where
  "visible_count xs =
     length (filter (\<lambda>i. \<forall>y \<in> set (take i xs). y < xs ! i) [0..<length xs])"

text \<open>A square board: as many characters in every row as there are rows.\<close>

definition square :: "board \<Rightarrow> bool" where
  "square b = (\<forall>row \<in> set b. length row = length b)"

text \<open>
  The column projection as the specification words it: position \<open>(i, j)\<close> of the output
  is position \<open>(j, i)\<close> of the input.
\<close>

definition transpose_spec :: "board \<Rightarrow> board" where
  "transpose_spec b = map (\<lambda>i. map (\<lambda>j. b ! j ! i) [0..<length b]) [0..<length b]"

text \<open>
  A digit character and its value, for the digit sequences that \<open>left_to_right_check\<close>
  is given.
\<close>

definition is_digit :: "char \<Rightarrow> bool" where
  "is_digit c = (c \<in> set ''0123456789'')"

definition digit_value :: "char \<Rightarrow> int" where
  "digit_value c = int (of_char c) - int (of_char CHR ''0'')"

section \<open>The visibility check\<close>

lemma upt_length_Cons: "[0..<length (x # xs)] = 0 # map Suc [0..<length xs]"
  by (simp add: upt_conv_Cons map_Suc_upt del: upt_Suc)

text \<open>
  The loop invariant: \<open>temp\<close> grows by exactly the positions of the remaining row that
  exceed both the running maximum \<open>m\<close> and everything before them in the remaining row.
\<close>

lemma check_rows_loop_length:
  "length (check_rows_loop xs m temp) =
     length temp +
     length (filter (\<lambda>i. m < xs ! i \<and> (\<forall>y \<in> set (take i xs). y < xs ! i)) [0..<length xs])"
proof (induction xs arbitrary: m temp)
  case Nil
  show ?case by simp
next
  case (Cons x xs)
  have "length (check_rows_loop (x # xs) m temp) =
      length (if m < x then temp @ [x] else temp) +
      length (filter (\<lambda>i. max x m < xs ! i \<and> (\<forall>y \<in> set (take i xs). y < xs ! i)) [0..<length xs])"
    by (simp only: check_rows_loop.simps Cons.IH)
  also have "filter (\<lambda>i. max x m < xs ! i \<and> (\<forall>y \<in> set (take i xs). y < xs ! i)) [0..<length xs]
      = filter ((\<lambda>i. m < (x # xs) ! i \<and> (\<forall>y \<in> set (take i (x # xs)). y < (x # xs) ! i)) \<circ> Suc)
          [0..<length xs]"
    by (rule filter_cong) auto
  finally show ?case
    unfolding upt_length_Cons by (simp add: filter_map del: upt_Suc)
qed

lemma visible_count_Cons:
  "visible_count (x # xs) =
     Suc (length (filter (\<lambda>i. x < xs ! i \<and> (\<forall>y \<in> set (take i xs). y < xs ! i)) [0..<length xs]))"
proof -
  have shift: "(\<lambda>i. \<forall>y \<in> set (take i (x # xs)). y < (x # xs) ! i) \<circ> Suc
      = (\<lambda>i. x < xs ! i \<and> (\<forall>y \<in> set (take i xs). y < xs ! i))"
    by (auto simp: fun_eq_iff)
  show ?thesis
    unfolding visible_count_def upt_length_Cons
    by (simp add: filter_map shift del: upt_Suc)
qed

lemma check_rows_visible_count:
  "check_rows (x # xs) num = Inr (num \<le> int (visible_count (x # xs)))"
  by (simp add: check_rows_def check_rows_loop_length visible_count_Cons)

text \<open>
  Claim C2. On every non-empty row of heights and for every hint \<open>num\<close>, \<open>check_rows\<close>
  returns True exactly when the number of visible buildings (the running maxima: the
  first height and every later height strictly taller than all before it) is at least
  \<open>num\<close>; the policy is "at least", not "exactly".
\<close>

theorem check_rows_iff_visible_count:
  "row_1 \<noteq> [] \<Longrightarrow> check_rows row_1 num = Inr (num \<le> int (visible_count row_1))"
  by (cases row_1) (simp_all add: check_rows_visible_count)

theorem check_rows_iff_visible_count_witness:
  "[2, 1, 3] \<noteq> ([] :: int list) \<and> visible_count [2, 1, 3] = 2 \<and>
   check_rows [2, 1, 3] 2 = Inr True \<and> check_rows [2, 1, 3] 1 = Inr True \<and>
   check_rows [2, 1, 3] 3 = Inr False"
proof -
  have vc: "visible_count [2, 1, 3] = 2" by code_simp
  have ne: "[2, 1, 3] \<noteq> ([] :: int list)" by simp
  from check_rows_iff_visible_count [OF ne, of 2] check_rows_iff_visible_count [OF ne, of 1]
    check_rows_iff_visible_count [OF ne, of 3] vc
  show ?thesis by simp
qed

text \<open>
  Claim C5. The check is monotone in the hint: on a non-empty row with \<open>V\<close> visible
  buildings it returns True for every hint up to \<open>V\<close> and False for every hint above \<open>V\<close>.
\<close>

theorem check_rows_monotone_in_hint:
  "row_1 \<noteq> [] \<Longrightarrow>
     (\<forall>num. num \<le> int (visible_count row_1) \<longrightarrow> check_rows row_1 num = Inr True) \<and>
     (\<forall>num. int (visible_count row_1) < num \<longrightarrow> check_rows row_1 num = Inr False)"
  by (cases row_1) (simp_all add: check_rows_visible_count)

theorem check_rows_monotone_in_hint_witness:
  "[1, 2, 4, 5, 3] \<noteq> ([] :: int list) \<and> visible_count [1, 2, 4, 5, 3] = 4 \<and>
   check_rows [1, 2, 4, 5, 3] 4 = Inr True \<and> check_rows [1, 2, 4, 5, 3] 5 = Inr False"
proof -
  have vc: "visible_count [1, 2, 4, 5, 3] = 4" by code_simp
  have ne: "[1, 2, 4, 5, 3] \<noteq> ([] :: int list)" by simp
  from check_rows_monotone_in_hint [OF ne] vc show ?thesis by simp
qed

section \<open>The column projection\<close>

text \<open>
  The inner loop stores \<open>board[j][i]\<close> at every index \<open>j\<close> it visits and leaves the
  other cells alone, provided every row it reads has a position \<open>i\<close>.
\<close>

lemma inner_loop_result:
  assumes "\<forall>j \<in> set js. i < length (board ! j)"
  shows "\<exists>r. inner_loop board i js rrow = Inr r \<and> length r = length rrow \<and>
           (\<forall>k < length rrow. r ! k = (if k \<in> set js then Str (board ! k ! i) else rrow ! k))"
  using assms
proof (induction js arbitrary: rrow)
  case Nil
  show ?case by simp
next
  case (Cons j js)
  from Cons.prems have ok: "i < length (board ! j)" and rest: "\<forall>j \<in> set js. i < length (board ! j)"
    by simp_all
  from Cons.IH [OF rest, of "rrow[j := Str (board ! j ! i)]"]
  obtain r where r: "inner_loop board i js (rrow[j := Str (board ! j ! i)]) = Inr r"
    "length r = length rrow"
    "\<forall>k < length rrow. r ! k = (if k \<in> set js then Str (board ! k ! i)
                                  else rrow[j := Str (board ! j ! i)] ! k)"
    by auto
  from r(3) have "\<forall>k < length rrow. r ! k = (if k \<in> set (j # js) then Str (board ! k ! i) else rrow ! k)"
    by (auto simp: nth_list_update)
  with r(1,2) ok show ?case by simp
qed

lemma join_Str: "join (map (\<lambda>j. Str (f j)) js) = Inr (map f js)"
  by (induction js) simp_all

lemma inner_loop_full:
  assumes "\<forall>j < n. i < length (board ! j)"
  shows "inner_loop board i [0..<n] (replicate n Zero) = Inr (map (\<lambda>j. Str (board ! j ! i)) [0..<n])"
proof -
  from assms have "\<forall>j \<in> set [0..<n]. i < length (board ! j)" by simp
  from inner_loop_result [OF this, of "replicate n Zero"]
  obtain r where r: "inner_loop board i [0..<n] (replicate n Zero) = Inr r" "length r = n"
    "\<forall>k < n. r ! k = Str (board ! k ! i)"
    by auto
  have "r = map (\<lambda>j. Str (board ! j ! i)) [0..<n]"
    by (rule nth_equalityI) (simp_all add: r(2,3))
  with r(1) show ?thesis by simp
qed

lemma outer_loop_result:
  assumes "\<forall>i \<in> set is. \<forall>j < length board. i < length (board ! j)"
  shows "outer_loop board is joined =
           Inr (joined @ map (\<lambda>i. map (\<lambda>j. board ! j ! i) [0..<length board]) is)"
  using assms
proof (induction "is" arbitrary: joined)
  case Nil
  show ?case by simp
next
  case (Cons i "is")
  from Cons.prems have "\<forall>j < length board. i < length (board ! j)" by simp
  then have "inner_loop board i [0..<length board] (replicate (length board) Zero) =
      Inr (map (\<lambda>j. Str (board ! j ! i)) [0..<length board])"
    by (rule inner_loop_full)
  moreover from Cons.prems have "\<forall>i \<in> set is. \<forall>j < length board. i < length (board ! j)" by simp
  ultimately show ?case
    by (simp add: join_Str Cons.IH)
qed

lemma reversed_board_square: "square b \<Longrightarrow> reversed_board b = Inr (transpose_spec b)"
  unfolding reversed_board_def transpose_spec_def
  by (rule outer_loop_result [where joined = "[]", simplified]) (simp add: square_def)

lemma square_transpose_spec: "square b \<Longrightarrow> square (transpose_spec b)"
  by (auto simp: square_def transpose_spec_def)

lemma transpose_spec_involution: "square b \<Longrightarrow> transpose_spec (transpose_spec b) = b"
proof -
  assume sq: "square b"
  have len: "length (transpose_spec b) = length b" by (simp add: transpose_spec_def)
  show ?thesis
  proof (rule nth_equalityI)
    show "length (transpose_spec (transpose_spec b)) = length b"
      by (simp add: transpose_spec_def)
  next
    fix i assume "i < length (transpose_spec (transpose_spec b))"
    then have i: "i < length b" by (simp add: transpose_spec_def)
    with sq have li: "length (b ! i) = length b" by (simp add: square_def)
    show "transpose_spec (transpose_spec b) ! i = b ! i"
      by (rule nth_equalityI) (simp_all add: transpose_spec_def i li)
  qed
qed

text \<open>
  Claim C7. On every square board the column check is the conjunction of the row
  uniqueness check and the row visibility check applied to the transposed board, the
  transposed board being the column projection of the specification; a fault of either
  check on the transposed board is the fault of the column check.
\<close>

theorem check_columns_via_transpose:
  "square b \<Longrightarrow>
     check_columns b =
       (case check_uniqueness_in_rows (transpose_spec b) of
          Inl e \<Rightarrow> Inl e
        | Inr uniqueness \<Rightarrow>
            (case check_horizontal_visibility (transpose_spec b) of
               Inl e \<Rightarrow> Inl e
             | Inr visibility \<Rightarrow> Inr (uniqueness \<and> visibility)))"
  by (simp add: check_columns_def reversed_board_square)

theorem check_columns_via_transpose_witness:
  "square [''***21**'', ''412453*'', ''423145*'', ''*543215'', ''*35214*'', ''*41532*'', ''*2*1***''] \<and>
   check_uniqueness_in_rows (transpose_spec
     [''***21**'', ''412453*'', ''423145*'', ''*543215'', ''*35214*'', ''*41532*'', ''*2*1***'']) = Inr True \<and>
   check_horizontal_visibility (transpose_spec
     [''***21**'', ''412453*'', ''423145*'', ''*543215'', ''*35214*'', ''*41532*'', ''*2*1***'']) = Inr True \<and>
   check_columns
     [''***21**'', ''412453*'', ''423145*'', ''*543215'', ''*35214*'', ''*41532*'', ''*2*1***''] = Inr True"
proof -
  let ?b = "[''***21**'', ''412453*'', ''423145*'', ''*543215'', ''*35214*'', ''*41532*'', ''*2*1***'']"
  have sq: "square ?b" by (simp add: square_def)
  have u: "check_uniqueness_in_rows (transpose_spec ?b) = Inr True" by code_simp
  have v: "check_horizontal_visibility (transpose_spec ?b) = Inr True" by code_simp
  from check_columns_via_transpose [OF sq] u v sq show ?thesis by simp
qed

text \<open>
  Claim C8. On every square board the board that \<open>check_columns\<close> builds has, at position
  \<open>(i, j)\<close>, the character at position \<open>(j, i)\<close> of the input, and building it again
  from the result gives the original board back.
\<close>

theorem reversed_board_transpose_involution:
  "square b \<Longrightarrow>
     \<exists>t. reversed_board b = Inr t \<and> length t = length b \<and>
         (\<forall>i < length b. length (t ! i) = length b \<and> (\<forall>j < length b. t ! i ! j = b ! j ! i)) \<and>
         reversed_board t = Inr b"
proof -
  assume sq: "square b"
  have "reversed_board b = Inr (transpose_spec b)"
    using sq by (rule reversed_board_square)
  moreover have "length (transpose_spec b) = length b"
    by (simp add: transpose_spec_def)
  moreover have "\<forall>i < length b. length (transpose_spec b ! i) = length b \<and>
      (\<forall>j < length b. transpose_spec b ! i ! j = b ! j ! i)"
    by (simp add: transpose_spec_def)
  moreover have "reversed_board (transpose_spec b) = Inr b"
    using reversed_board_square [OF square_transpose_spec [OF sq]]
    by (simp add: transpose_spec_involution [OF sq])
  ultimately show ?thesis by blast
qed

theorem reversed_board_transpose_involution_witness:
  "square [''*2*'', ''3?1'', ''*4*''] \<and>
   reversed_board [''*2*'', ''3?1'', ''*4*''] = Inr [''*3*'', ''2?4'', ''*1*''] \<and>
   reversed_board [''*3*'', ''2?4'', ''*1*''] = Inr [''*2*'', ''3?1'', ''*4*'']"
proof -
  have sq: "square [''*2*'', ''3?1'', ''*4*'']" by (simp add: square_def)
  have t: "reversed_board [''*2*'', ''3?1'', ''*4*''] = Inr [''*3*'', ''2?4'', ''*1*'']"
    by code_simp
  from reversed_board_transpose_involution [OF sq] t sq show ?thesis by auto
qed

section \<open>Row uniqueness and the interior rows\<close>

text \<open>
  The two \<^verbatim>\<open>pop\<close> calls leave the interior slice of the row, and comparing the length
  of the filtered row with the size of its set asks whether a character repeats.
\<close>

lemma butlast_tl_inner_slice: "butlast (tl row) = inner_slice row"
  by (simp add: inner_slice_def butlast_conv_take drop_take drop_Suc)

lemma length_inner_slice: "length (inner_slice xs) = length xs - 2"
  by (simp add: inner_slice_def)

lemma nth_inner_slice: "k < length xs - 2 \<Longrightarrow> inner_slice xs ! k = xs ! Suc k"
  by (simp add: inner_slice_def)

lemma length_card_distinct: "(length xs = card (set xs)) = distinct xs"
  using card_distinct [of xs] distinct_card [of xs] by auto

lemma uniqueness_loop_Cons:
  "uniqueness_loop (row # rest) =
     (if length row < 2 then Inl IndexError
      else if \<not> distinct (filter (\<lambda>x. x \<noteq> CHR ''*'') (inner_slice row)) then Inr False
      else uniqueness_loop rest)"
proof (cases row)
  case Nil
  then show ?thesis by simp
next
  case (Cons c row1)
  have "butlast row1 = inner_slice row"
    using butlast_tl_inner_slice [of row] Cons by simp
  then show ?thesis
    using Cons by (cases row1) (simp_all add: Let_def length_card_distinct)
qed

lemma filter_not_distinct:
  assumes "a < b" "b < length xs" "xs ! a = xs ! b" "P (xs ! a)"
  shows "\<not> distinct (filter P xs)"
proof -
  have a: "a < length xs" using assms by simp
  have split: "xs = take a xs @ xs ! a # drop (Suc a) xs"
    using a by (simp add: id_take_nth_drop [symmetric])
  have "drop (Suc a) xs ! (b - Suc a) = xs ! b" using assms by simp
  moreover have "b - Suc a < length (drop (Suc a) xs)" using assms by simp
  ultimately have "xs ! b \<in> set (drop (Suc a) xs)" by (metis nth_mem)
  with assms have "xs ! a \<in> set (filter P (drop (Suc a) xs))" by simp
  moreover have "filter P xs = filter P (take a xs) @ xs ! a # filter P (drop (Suc a) xs)"
    using assms(4) by (subst split) simp
  ultimately show ?thesis by simp
qed

lemma uniqueness_loop_False:
  assumes "\<forall>r \<in> set rows. 2 \<le> length r"
    and "row \<in> set rows"
    and "\<not> distinct (filter (\<lambda>x. x \<noteq> CHR ''*'') (inner_slice row))"
  shows "uniqueness_loop rows = Inr False"
  using assms
proof (induction rows)
  case Nil
  then show ?case by simp
next
  case (Cons r rows)
  then show ?case by (auto simp: uniqueness_loop_Cons simp del: uniqueness_loop.simps)
qed

lemma nth_inner_slice_mem:
  "0 < k \<Longrightarrow> k < length xs - 1 \<Longrightarrow> xs ! k \<in> set (inner_slice xs)"
proof -
  assume k: "0 < k" "k < length xs - 1"
  then have "k - 1 < length (inner_slice xs)" by (simp add: length_inner_slice)
  moreover have "inner_slice xs ! (k - 1) = xs ! k"
    using k nth_inner_slice [of "k - 1" xs] by simp
  ultimately show ?thesis by (metis nth_mem)
qed

text \<open>
  Claim C6. On every board (rows of equal length \<open>n\<close>) in which some interior row \<open>k\<close>
  holds the same non-blank character at two interior positions \<open>i < j\<close>, the row
  uniqueness check returns False for the whole board.
\<close>

theorem check_uniqueness_in_rows_duplicate:
  assumes "\<forall>row \<in> set board. length row = n"
    and "0 < k" "k < length board - 1"
    and "0 < i" "i < j" "j < n - 1"
    and "board ! k ! i = board ! k ! j" "board ! k ! i \<noteq> CHR ''*''"
  shows "check_uniqueness_in_rows board = Inr False"
proof -
  let ?row = "board ! k"
  have kb: "k < length board" using assms(3) by simp
  then have len: "length ?row = n" using assms(1) by simp
  have n: "4 \<le> n" using assms(4,5,6) by simp
  have "\<forall>r \<in> set (inner_slice board). 2 \<le> length r"
    using assms(1) n by (auto simp: inner_slice_def dest!: in_set_dropD in_set_takeD)
  moreover have "?row \<in> set (inner_slice board)"
    using assms(2,3) by (rule nth_inner_slice_mem)
  moreover have "\<not> distinct (filter (\<lambda>x. x \<noteq> CHR ''*'') (inner_slice ?row))"
  proof (rule filter_not_distinct [where a = "i - 1" and b = "j - 1"])
    show "i - 1 < j - 1" using assms(4,5) by simp
    show "j - 1 < length (inner_slice ?row)"
      using assms(4,5,6) len by (simp add: length_inner_slice)
    have "inner_slice ?row ! (i - 1) = ?row ! i"
      using nth_inner_slice [of "i - 1" ?row] assms(4,5,6) len by simp
    moreover have "inner_slice ?row ! (j - 1) = ?row ! j"
      using nth_inner_slice [of "j - 1" ?row] assms(4,5,6) len by simp
    ultimately show "inner_slice ?row ! (i - 1) = inner_slice ?row ! (j - 1)"
      "inner_slice ?row ! (i - 1) \<noteq> CHR ''*''"
      using assms(7,8) by simp_all
  qed
  ultimately show ?thesis
    unfolding check_uniqueness_in_rows_def by (rule uniqueness_loop_False)
qed

theorem check_uniqueness_in_rows_duplicate_witness:
  "length [''***21**'', ''452453*'', ''423145*'', ''*543215'', ''*35214*'', ''*41532*'', ''*2*1***''] = 7 \<and>
   [''***21**'', ''452453*'', ''423145*'', ''*543215'', ''*35214*'', ''*41532*'', ''*2*1***''] ! 1 ! 1 = CHR ''5'' \<and>
   [''***21**'', ''452453*'', ''423145*'', ''*543215'', ''*35214*'', ''*41532*'', ''*2*1***''] ! 1 ! 4 = CHR ''5'' \<and>
   check_uniqueness_in_rows
     [''***21**'', ''452453*'', ''423145*'', ''*543215'', ''*35214*'', ''*41532*'', ''*2*1***''] = Inr False"
  using check_uniqueness_in_rows_duplicate
    [of "[''***21**'', ''452453*'', ''423145*'', ''*543215'', ''*35214*'', ''*41532*'', ''*2*1***'']" 7 1 1 4]
  by simp

text \<open>
  With fewer than four rows at most one interior row remains: the check returns True
  exactly when there is none, or the one that remains has at least two characters and no
  repeated non-blank interior character.
\<close>

lemma check_uniqueness_in_rows_short:
  "length board < 4 \<Longrightarrow>
     (check_uniqueness_in_rows board = Inr True) =
     (length board = 3 \<longrightarrow>
        2 \<le> length (board ! 1) \<and>
        distinct (filter (\<lambda>x. x \<noteq> CHR ''*'') (inner_slice (board ! 1))))"
proof -
  assume short: "length board < 4"
  show ?thesis
  proof (cases "length board = 3")
    case True
    then obtain a b c where board: "board = [a, b, c]"
      by (auto simp: eval_nat_numeral length_Suc_conv)
    have "check_uniqueness_in_rows board = uniqueness_loop [b]"
      by (simp add: board check_uniqueness_in_rows_def inner_slice_def)
    also have "\<dots> = (if length b < 2 then Inl IndexError
        else if \<not> distinct (filter (\<lambda>x. x \<noteq> CHR ''*'') (inner_slice b)) then Inr False
        else Inr True)"
      by (simp only: uniqueness_loop_Cons uniqueness_loop.simps(1))
    finally show ?thesis
      by (simp add: board)
  next
    case False
    with short have "length board - 2 = 0" by simp
    then have "inner_slice board = []"
      using length_inner_slice [of board] by simp
    with False show ?thesis by (simp add: check_uniqueness_in_rows_def)
  qed
qed

lemma distinct_filter_short: "length xs \<le> 1 \<Longrightarrow> distinct (filter P xs)"
  by (cases xs) simp_all

text \<open>
  Claim C4. On every board (square, as many characters in a row as there are rows) with
  fewer than four rows, so that fewer than two rows remain after the first and the last
  are dropped, the row uniqueness check returns True: with three rows the one remaining
  row has a single interior cell, which cannot repeat.
\<close>

theorem check_uniqueness_in_rows_vacuous:
  assumes "square board" and "length board < 4"
  shows "check_uniqueness_in_rows board = Inr True"
proof (cases "length board = 3")
  case True
  then have "board ! 1 \<in> set board" by simp
  with assms(1) True have len: "length (board ! 1) = 3" by (simp add: square_def)
  then have "length (inner_slice (board ! 1)) \<le> 1" by (simp add: length_inner_slice)
  then have "distinct (filter (\<lambda>x. x \<noteq> CHR ''*'') (inner_slice (board ! 1)))"
    by (rule distinct_filter_short)
  with len show ?thesis
    using check_uniqueness_in_rows_short [OF assms(2)] by simp
next
  case False
  then show ?thesis
    using check_uniqueness_in_rows_short [OF assms(2)] by simp
qed

theorem check_uniqueness_in_rows_vacuous_witness:
  "square [''*2*'', ''315'', ''*4*''] \<and> length [''*2*'', ''315'', ''*4*''] < 4 \<and>
   check_uniqueness_in_rows [''*2*'', ''315'', ''*4*''] = Inr True \<and>
   square [''**'', ''**''] \<and> check_uniqueness_in_rows [''**'', ''**''] = Inr True"
proof -
  have sq3: "square [''*2*'', ''315'', ''*4*'']" by (simp add: square_def)
  have sq2: "square [''**'', ''**'']" by (simp add: square_def)
  from check_uniqueness_in_rows_vacuous [OF sq3] check_uniqueness_in_rows_vacuous [OF sq2] sq3 sq2
  show ?thesis by simp
qed

lemma inner_slice_cong:
  assumes "length b1 = length b2"
    and "\<forall>k. 0 < k \<and> k < length b1 - 1 \<longrightarrow> b1 ! k = b2 ! k"
  shows "inner_slice b1 = inner_slice b2"
proof (rule nth_equalityI)
  show "length (inner_slice b1) = length (inner_slice b2)"
    using assms(1) by (simp add: length_inner_slice)
next
  fix k assume "k < length (inner_slice b1)"
  then have k: "k < length b1 - 2" by (simp add: length_inner_slice)
  then have "b1 ! Suc k = b2 ! Suc k" using assms(2) by simp
  with k assms(1) show "inner_slice b1 ! k = inner_slice b2 ! k"
    by (simp add: nth_inner_slice)
qed

text \<open>
  Claim C10. Two boards of equal size that agree on every row but the first and the last
  get the same result, value or fault, from the row uniqueness check and from the row
  visibility check.
\<close>

theorem row_checks_ignore_hint_rows:
  assumes "length b1 = length b2"
    and "\<forall>k. 0 < k \<and> k < length b1 - 1 \<longrightarrow> b1 ! k = b2 ! k"
  shows "check_uniqueness_in_rows b1 = check_uniqueness_in_rows b2 \<and>
         check_horizontal_visibility b1 = check_horizontal_visibility b2"
  using inner_slice_cong [OF assms]
  by (simp add: check_uniqueness_in_rows_def check_horizontal_visibility_def)

theorem row_checks_ignore_hint_rows_witness:
  "check_uniqueness_in_rows [''*1**'', ''212*'', ''*212'', ''****''] =
     check_uniqueness_in_rows [''?9?9'', ''212*'', ''*212'', ''7777''] \<and>
   check_horizontal_visibility [''*1**'', ''212*'', ''*212'', ''****''] =
     check_horizontal_visibility [''?9?9'', ''212*'', ''*212'', ''7777''] \<and>
   check_horizontal_visibility [''?9?9'', ''212*'', ''*212'', ''7777''] = Inr True"
proof -
  have same: "\<forall>k. 0 < k \<and> k < length [''*1**'', ''212*'', ''*212'', ''****''] - 1 \<longrightarrow>
      [''*1**'', ''212*'', ''*212'', ''****''] ! k = [''?9?9'', ''212*'', ''*212'', ''7777''] ! k"
    by (auto simp: nth_Cons')
  have v: "check_horizontal_visibility [''*1**'', ''212*'', ''*212'', ''****''] = Inr True"
    by code_simp
  from row_checks_ignore_hint_rows [OF _ same] v show ?thesis by simp
qed

section \<open>The left-to-right check\<close>

lemma py_int_digit: "is_digit c \<Longrightarrow> py_int c = Inr (digit_value c)"
  by (auto simp: is_digit_def py_int_def digit_value_def)

lemma map_int_digits: "\<forall>c \<in> set s. is_digit c \<Longrightarrow> map_int s = Inr (map digit_value s)"
  by (induction s) (simp_all add: py_int_digit)

lemma py_max_Max: "xs \<noteq> [] \<Longrightarrow> py_max xs = Inr (Max (set xs))"
  by (cases xs) (simp_all add: Max.set_eq_fold [symmetric])

lemma left_to_right_check_digits:
  assumes digits: "\<forall>c \<in> set (strip_star input_line). is_digit c"
    and pivot: "1 \<le> pivot" "pivot < int (length (strip_star input_line))"
  shows "left_to_right_check input_line pivot =
           Inr (map digit_value (tl (strip_star input_line)) ! (nat pivot - 1) =
                Max (set (take (nat pivot) (map digit_value (tl (strip_star input_line))))))"
proof -
  let ?hs = "map digit_value (tl (strip_star input_line))"
  let ?num = "take (nat pivot) ?hs"
  from pivot obtain c rest where s: "strip_star input_line = c # rest"
    by (cases "strip_star input_line") auto
  have conv: "map_int (strip_star input_line) = Inr (digit_value c # ?hs)"
    using map_int_digits [OF digits] s by simp
  have len: "nat pivot \<le> length ?hs" "0 < nat pivot"
    using pivot s by simp_all
  have ne: "?num \<noteq> []"
    using pivot s by auto
  have slice: "slice_to ?hs pivot = ?num"
    using pivot by (simp add: slice_to_def)
  have "last ?num = ?num ! (length ?num - 1)"
    using ne by (rule last_conv_nth)
  also have "\<dots> = ?hs ! (nat pivot - 1)"
    using len by (simp add: min_absorb2)
  finally have last: "last ?num = ?hs ! (nat pivot - 1)" .
  show ?thesis
    unfolding left_to_right_check_def conv
    using ne by (simp add: slice py_max_Max last del: take_eq_Nil)
qed

text \<open>
  Claim C9. When the line without its leading and trailing blanks is a sequence of
  digits with more than \<open>pivot\<close> entries and \<open>pivot\<close> is at least 1,
  \<open>left_to_right_check\<close> returns True exactly when, the first digit dropped, the
  \<open>pivot\<close>-th remaining height is the maximum of the first \<open>pivot\<close> remaining heights.
  This is not the rule of \<open>check_rows\<close>: on the line \<open>2213*\<close> with pivot 2 it returns
  False, while \<open>check_rows\<close> on the heights 2, 1, 3 with hint 2 returns True.
\<close>

theorem left_to_right_check_last_is_max:
  "((\<forall>c \<in> set (strip_star input_line). is_digit c) \<and>
    1 \<le> pivot \<and> pivot < int (length (strip_star input_line)) \<longrightarrow>
    left_to_right_check input_line pivot =
      Inr (map digit_value (tl (strip_star input_line)) ! (nat pivot - 1) =
           Max (set (take (nat pivot) (map digit_value (tl (strip_star input_line))))))) \<and>
   left_to_right_check ''2213*'' 2 = Inr False \<and>
   check_rows (map digit_value ''213'') 2 = Inr True \<and>
   map digit_value ''213'' = [2, 1, 3]"
proof (intro conjI impI)
  assume "(\<forall>c \<in> set (strip_star input_line). is_digit c) \<and>
    1 \<le> pivot \<and> pivot < int (length (strip_star input_line))"
  then show "left_to_right_check input_line pivot =
      Inr (map digit_value (tl (strip_star input_line)) ! (nat pivot - 1) =
           Max (set (take (nat pivot) (map digit_value (tl (strip_star input_line))))))"
    by (intro left_to_right_check_digits) simp_all
next
  show "left_to_right_check ''2213*'' 2 = Inr False" by code_simp
next
  show "map digit_value ''213'' = [2, 1, 3]" by (simp add: digit_value_def)
  then show "check_rows (map digit_value ''213'') 2 = Inr True"
    by (simp add: check_rows_def)
qed

theorem left_to_right_check_last_is_max_witness:
  "strip_star ''412453*'' = ''412453'' \<and>
   left_to_right_check ''412453*'' 4 = Inr True \<and>
   left_to_right_check ''452453*'' 5 = Inr False"
proof -
  have s1: "strip_star ''412453*'' = ''412453''" by (simp add: strip_star_def)
  have s2: "strip_star ''452453*'' = ''452453''" by (simp add: strip_star_def)
  from left_to_right_check_last_is_max [of "''412453*''" 4]
    left_to_right_check_last_is_max [of "''452453*''" 5] s1 s2
  show ?thesis by (simp add: is_digit_def digit_value_def)
qed

section \<open>The top-level validator\<close>

text \<open>
  Claim C3. The validator returns exactly the conjunction of the four checks: the column
  check, the row visibility check, the completeness check and the row uniqueness check,
  each on the board it was given. It returns a value exactly when the three checks that
  can raise all return one.
\<close>

theorem check_skyscrapers_conjunction:
  "check_skyscrapers board = Inr r \<longleftrightarrow>
     (\<exists>columns h_visibility uniqueness.
        check_columns board = Inr columns \<and>
        check_horizontal_visibility board = Inr h_visibility \<and>
        check_uniqueness_in_rows board = Inr uniqueness \<and>
        r = (columns \<and> h_visibility \<and> check_not_finished_board board \<and> uniqueness))"
  by (auto simp: check_skyscrapers_def split: sum.splits)

theorem check_skyscrapers_conjunction_witness:
  "check_columns
     [''***21**'', ''412453*'', ''423145*'', ''*543215'', ''*35214*'', ''*41532*'', ''*2*1***''] = Inr True \<and>
   check_horizontal_visibility
     [''***21**'', ''412453*'', ''423145*'', ''*543215'', ''*35214*'', ''*41532*'', ''*2*1***''] = Inr True \<and>
   check_uniqueness_in_rows
     [''***21**'', ''412453*'', ''423145*'', ''*543215'', ''*35214*'', ''*41532*'', ''*2*1***''] = Inr True \<and>
   check_not_finished_board
     [''***21**'', ''412453*'', ''423145*'', ''*543215'', ''*35214*'', ''*41532*'', ''*2*1***''] \<and>
   check_skyscrapers
     [''***21**'', ''412453*'', ''423145*'', ''*543215'', ''*35214*'', ''*41532*'', ''*2*1***''] = Inr True"
proof -
  let ?b = "[''***21**'', ''412453*'', ''423145*'', ''*543215'', ''*35214*'', ''*41532*'', ''*2*1***'']"
  have c: "check_columns ?b = Inr True" by code_simp
  have h: "check_horizontal_visibility ?b = Inr True" by code_simp
  have u: "check_uniqueness_in_rows ?b = Inr True" by code_simp
  have n: "check_not_finished_board ?b" by simp
  have "check_skyscrapers ?b = Inr True"
    unfolding check_skyscrapers_conjunction using c h u n by blast
  with c h u n show ?thesis by simp
qed

text \<open>
  Claim C1, at the unfinished board of the docstring of \<open>check_not_finished_board\<close>: the
  completeness check returns False there, but the validator does not return False: the
  column check converts the unfilled marker with \<^verbatim>\<open>int\<close> and raises ValueError before
  the completeness result is used.
\<close>

theorem check_skyscrapers_unfinished_raises:
  "check_not_finished_board
     [''***21**'', ''4?????*'', ''4?????*'', ''*?????5'', ''*?????*'', ''*?????*'', ''*2*1***''] = False \<and>
   check_skyscrapers
     [''***21**'', ''4?????*'', ''4?????*'', ''*?????5'', ''*?????*'', ''*?????*'', ''*2*1***'']
     = Inl ValueError"
  by code_simp

end
